theory Spec2Isabelle
  imports Complex_Main
begin

section \<open>Exceptions and work items\<close>

text \<open>
  Python exceptions are values. \<open>KeyboardInterrupt\<close> stands for the exceptions that derive
  from \<open>BaseException\<close> only (it is what the signal handlers of the module raise); the
  other three derive from \<open>Exception\<close> and are what an \<open>except Exception\<close> clause catches.
\<close>

datatype py_exception = ZeroDivisionError | OSError | AgentError | KeyboardInterrupt

fun is_Exception :: "py_exception \<Rightarrow> bool" where
  "is_Exception KeyboardInterrupt = False"
| "is_Exception _ = True"

text \<open>
  A work item is a Python dict of named string fields; the association list keeps the
  order of the fields. \<open>dict_get item key\<close> is \<open>item.get(key)\<close>.
\<close>

type_synonym item = "(string \<times> string) list"

definition dict_get :: "item \<Rightarrow> string \<Rightarrow> string option" where
  "dict_get item key = map_of item key"

section \<open>Partitioner: \<open>split_items_into_batches\<close>\<close>

text \<open>
  The slicing loop \<open>for i in range(0, len(items), batch_size)\<close>: \<open>i\<close> is the loop variable,
  \<open>batches\<close> the list built so far, \<open>items[i:i + batch_size]\<close> is
  \<open>take batch_size (drop i items)\<close>. The caller always passes \<open>batch_size \<ge> 1\<close>
  (\<open>range\<close> with step 0 would raise); the test \<open>0 < batch_size\<close> makes the recursion total.
\<close>

function slice_batches :: "'a list \<Rightarrow> nat \<Rightarrow> nat \<Rightarrow> 'a list list \<Rightarrow> 'a list list" where
  "slice_batches items batch_size i batches =
     (if i < length items \<and> 0 < batch_size
      then (let batch = take batch_size (drop i items)
            in slice_batches items batch_size (i + batch_size)
                 (if batch \<noteq> [] then batches @ [batch] else batches))
      else batches)"
  by pat_completeness auto
termination
  by (relation "measure (\<lambda>(items, batch_size, i, batches). length items - i)") auto

declare slice_batches.simps [simp del]

text \<open>
  The merging loop \<open>while len(batches) > num_processes and len(batches) > 1\<close>:
  \<open>batches.pop()\<close> removes the last batch, \<open>batches[-1].extend(last_batch)\<close> appends it to
  the batch that is last afterwards.
\<close>

function merge_last_batches :: "'a list list \<Rightarrow> int \<Rightarrow> 'a list list" where
  "merge_last_batches batches num_processes =
     (if int (length batches) > num_processes \<and> length batches > 1
      then (let last_batch = last batches;
                popped = butlast batches;
                j = length popped - 1
            in merge_last_batches (popped[j := popped ! j @ last_batch]) num_processes)
      else batches)"
  by pat_completeness auto
termination
  by (relation "measure (\<lambda>(batches, num_processes). length batches)") auto

declare merge_last_batches.simps [simp del]

text \<open>
  \<open>len(items) // num_processes\<close> is Python's floor division, which is \<open>div\<close> on \<open>int\<close>;
  with \<open>num_processes = 0\<close> it raises \<open>ZeroDivisionError\<close> (the emptiness test comes first).
\<close>

definition split_items_into_batches :: "'a list \<Rightarrow> int \<Rightarrow> py_exception + 'a list list" where
  "split_items_into_batches items num_processes =
     (if items = [] then Inr []
      else if num_processes = 0 then Inl ZeroDivisionError
      else (let batch_size = nat (max 1 (int (length items) div num_processes))
            in Inr (merge_last_batches (slice_batches items batch_size 0 []) num_processes)))"

section \<open>ResumeFilter: \<open>_load_existing_results\<close> and \<open>_filter_items_for_resume\<close>\<close>

text \<open>
  \<open>pd.read_csv\<close> is not code of this repository, so the frame it returns is taken as
  given: the column names, and for every data row its cells by column name. A cell that
  pandas reads as NaN is absent from the row; a present cell holds the string that
  \<open>astype(str)\<close> gives.
\<close>

record dataframe =
  columns :: "string list"
  rows :: "item list"

text \<open>
  The output file as \<open>_load_existing_results\<close> meets it: \<open>Missing\<close> when
  \<open>output_file.exists()\<close> is false, \<open>Unreadable\<close> when \<open>pd.read_csv\<close> raises (an empty
  file raises \<open>EmptyDataError\<close>), \<open>Parsed df\<close> otherwise.
\<close>

datatype output_file_read = Missing | Unreadable | Parsed dataframe

definition df_empty :: "dataframe \<Rightarrow> bool" where
  "df_empty df = (columns df = [] \<or> rows df = [])"

text \<open>\<open>existing_df[resume_key].dropna().astype(str)\<close>, as a list.\<close>

definition column_dropna :: "dataframe \<Rightarrow> string \<Rightarrow> string list" where
  "column_dropna df key = concat (map (\<lambda>row. case dict_get row key of None \<Rightarrow> [] | Some v \<Rightarrow> [v]) (rows df))"

definition load_existing_results :: "string \<Rightarrow> output_file_read \<Rightarrow> string set" where
  "load_existing_results resume_key output_file =
     (case output_file of
        Missing \<Rightarrow> {}
      | Unreadable \<Rightarrow> {}
      | Parsed existing_df \<Rightarrow>
          if df_empty existing_df then {}
          else if resume_key \<notin> set (columns existing_df) then {}
          else set (column_dropna existing_df resume_key))"

text \<open>
  The loop \<open>for item in items\<close> with its accumulator \<open>filtered_items\<close>;
  \<open>str(item.get(resume_key, ''))\<close> is the field, or the empty string when the item has no
  such field.
\<close>

definition item_key_str :: "item \<Rightarrow> string \<Rightarrow> string" where
  "item_key_str item resume_key = (case dict_get item resume_key of None \<Rightarrow> [] | Some v \<Rightarrow> v)"

fun filter_loop :: "string \<Rightarrow> string set \<Rightarrow> item list \<Rightarrow> item list \<Rightarrow> item list" where
  "filter_loop resume_key existing_keys [] filtered_items = filtered_items"
| "filter_loop resume_key existing_keys (item # items) filtered_items =
     (let item_key = item_key_str item resume_key
      in filter_loop resume_key existing_keys items
           (if item_key \<noteq> [] \<and> item_key \<notin> existing_keys
            then filtered_items @ [item] else filtered_items))"

definition filter_items_for_resume :: "string \<Rightarrow> output_file_read \<Rightarrow> item list \<Rightarrow> item list" where
  "filter_items_for_resume resume_key output_file items =
     (let existing_keys = load_existing_results resume_key output_file
      in if existing_keys = {} then items
         else filter_loop resume_key existing_keys items [])"

text \<open>
  The specification's reading, \<open>I \ K\<close> by resume-key field: an item stays exactly when
  the value of its resume-key field is not among the keys \<open>K\<close>.
\<close>

definition resume_set_difference :: "string \<Rightarrow> string set \<Rightarrow> item list \<Rightarrow> item list" where
  "resume_set_difference resume_key K items =
     filter (\<lambda>item. item_key_str item resume_key \<notin> K) items"

text \<open>
  An output file of an earlier run with one row whose \<open>N3_url\<close> is \<open>u1\<close>, and the item list
  that \<open>run_n1n3_scraper\<close> builds (one item with the field \<open>page_url\<close> only).
\<close>

definition earlier_output :: output_file_read where
  "earlier_output = Parsed \<lparr>columns = [''N3_url''], rows = [[(''N3_url'', ''u1'')]]\<rparr>"

definition n1n3_items :: "item list" where
  "n1n3_items = [[(''page_url'', ''http://shop'')]]"

section \<open>Worker: \<open>process_batch\<close>\<close>

text \<open>
  A progress signal is what a worker puts on the progress queue: an integer (\<open>-1\<close> for a
  failed item, otherwise the number of output records of the item) or the string
  \<open>'DONE'\<close>.
\<close>

datatype signal = Count int | DONE

text \<open>
  The part of a worker's state that \<open>process_batch\<close> changes: whether \<open>self.driver\<close> holds
  an open WebDriver, and what the worker has put on the progress queue and on the output
  queue, in order. Log records go through \<open>QueueHandler.emit\<close>, which swallows every
  exception, and are left out.
\<close>

record worker_state =
  driver_open :: bool
  progress_queue :: "signal list"
  output_queue :: "item list"

text \<open>
  What the collaborators of a worker do: \<open>start\<close> is the outcome of
  \<open>setup_process_logging\<close> followed by \<open>_init_driver\<close> (the value returned, or an exception
  raised by an overriding subclass), \<open>agent i item\<close> is the outcome of
  \<open>_process_single_item\<close> on the \<open>i\<close>-th item of the batch, and \<open>driver_quit\<close> is the outcome
  of \<open>self.driver.quit()\<close> in the \<open>finally\<close> clause.
\<close>

datatype init_result = InitReturns bool | InitRaises py_exception

datatype agent_result = Returns "item list" | Raises py_exception

datatype quit_result = QuitReturns | QuitRaises py_exception

record worker_env =
  progress_tracking_key :: string
  start :: init_result
  agent :: "nat \<Rightarrow> item \<Rightarrow> agent_result"
  driver_quit :: quit_result

definition put_progress :: "signal \<Rightarrow> worker_state \<Rightarrow> worker_state" where
  "put_progress sig s = s\<lparr>progress_queue := progress_queue s @ [sig]\<rparr>"

definition put_output :: "worker_state \<Rightarrow> item \<Rightarrow> worker_state" where
  "put_output s result = s\<lparr>output_queue := output_queue s @ [result]\<rparr>"

text \<open>Python truthiness of \<open>item.get(key)\<close>: \<open>None\<close> and the empty string are false.\<close>

definition truthy :: "string option \<Rightarrow> bool" where
  "truthy v = (case v of None \<Rightarrow> False | Some s \<Rightarrow> s \<noteq> [])"

text \<open>
  The body of the \<open>for\<close> loop for one item. \<open>body\<close> is the \<open>try\<close> block, the \<open>case\<close> after it
  the clause \<open>except Exception\<close>, which puts \<open>-1\<close> and continues; another exception leaves
  the loop.
\<close>

definition process_item ::
    "worker_env \<Rightarrow> nat \<Rightarrow> item \<Rightarrow> worker_state \<Rightarrow> py_exception option \<times> worker_state" where
  "process_item env i item s =
     (let body =
        (if \<not> truthy (dict_get item (progress_tracking_key env))
         then (None, put_progress (Count 0) s)
         else (case agent env i item of
                 Raises e \<Rightarrow> (Some e, s)
               | Returns results \<Rightarrow>
                   if results \<noteq> []
                   then (None, put_progress (Count (int (length results)))
                                 (foldl put_output s results))
                   else (None, put_progress (Count 0) s)))
      in case body of
           (None, s') \<Rightarrow> (None, s')
         | (Some e, s') \<Rightarrow>
             if is_Exception e then (None, put_progress (Count (- 1)) s')
             else (Some e, s'))"

text \<open>\<open>for i, item in enumerate(items_batch)\<close>, from index \<open>i\<close> on.\<close>

fun process_items ::
    "worker_env \<Rightarrow> nat \<Rightarrow> item list \<Rightarrow> worker_state \<Rightarrow> py_exception option \<times> worker_state" where
  "process_items env i [] s = (None, s)"
| "process_items env i (item # rest) s =
     (case process_item env i item s of
        (None, s') \<Rightarrow> process_items env (Suc i) rest s'
      | (Some e, s') \<Rightarrow> (Some e, s'))"

text \<open>\<open>for _ in items_batch: progress_queue.put(-1)\<close>.\<close>

definition signal_failure_for_each :: "item list \<Rightarrow> worker_state \<Rightarrow> worker_state" where
  "signal_failure_for_each items_batch s =
     foldl (\<lambda>s' _. put_progress (Count (- 1)) s') s items_batch"

text \<open>
  The driver clean-up of the \<open>finally\<close> clause: \<open>if self.driver:\<close> guards a \<open>try\<close> around
  \<open>self.driver.quit()\<close> whose clause \<open>except Exception\<close> only logs a warning; an exception
  outside \<open>Exception\<close> goes on.
\<close>

definition close_driver :: "worker_env \<Rightarrow> worker_state \<Rightarrow> py_exception option \<times> worker_state" where
  "close_driver env s =
     (if driver_open s
      then (case driver_quit env of
              QuitReturns \<Rightarrow> (None, s\<lparr>driver_open := False\<rparr>)
            | QuitRaises e \<Rightarrow> if is_Exception e then (None, s) else (Some e, s))
      else (None, s))"

text \<open>
  \<open>process_batch\<close>: \<open>body\<close> is the outer \<open>try\<close> block (\<open>_init_driver\<close> leaves \<open>self.driver\<close>
  unset when it returns \<open>False\<close>), \<open>handled\<close> the clause \<open>except Exception\<close>, and \<open>closed\<close>
  the driver clean-up of the \<open>finally\<close> clause, after which \<open>'DONE'\<close> is put. An exception
  that leaves the clean-up skips the \<open>put\<close> and replaces the pending one. The first
  component of the result is the exception that leaves \<open>process_batch\<close>, if any.
\<close>

definition process_batch ::
    "worker_env \<Rightarrow> item list \<Rightarrow> worker_state \<Rightarrow> py_exception option \<times> worker_state" where
  "process_batch env items_batch s =
     (let body =
        (case start env of
           InitRaises e \<Rightarrow> (Some e, s)
         | InitReturns ok \<Rightarrow>
             if \<not> ok then (None, signal_failure_for_each items_batch (s\<lparr>driver_open := False\<rparr>))
             else process_items env 0 items_batch (s\<lparr>driver_open := True\<rparr>));
          handled =
            (case body of
               (None, s') \<Rightarrow> (None, s')
             | (Some e, s') \<Rightarrow>
                 if is_Exception e then (None, signal_failure_for_each items_batch s')
                 else (Some e, s'));
          closed = close_driver env (snd handled)
      in case closed of
           (None, s') \<Rightarrow> (fst handled, put_progress DONE s')
         | (Some e, s') \<Rightarrow> (Some e, s'))"


definition quit_escapes :: "worker_env \<Rightarrow> bool" where
  "quit_escapes env = (case driver_quit env of QuitReturns \<Rightarrow> False | QuitRaises e \<Rightarrow> \<not> is_Exception e)"

definition new_worker :: worker_state where
  "new_worker = \<lparr>driver_open = False, progress_queue = [], output_queue = []\<rparr>"


text \<open>
  The progress signal the specification expects for the \<open>i\<close>-th item of a batch: \<open>0\<close> for
  an item without tracking key or without results, the number of results otherwise, and
  \<open>-1\<close> when the agent raises.
\<close>

definition item_signal :: "worker_env \<Rightarrow> nat \<Rightarrow> item \<Rightarrow> int" where
  "item_signal env i item =
     (if \<not> truthy (dict_get item (progress_tracking_key env)) then 0
      else (case agent env i item of
              Raises e \<Rightarrow> - 1
            | Returns results \<Rightarrow> int (length results)))"

fun item_signals :: "worker_env \<Rightarrow> nat \<Rightarrow> item list \<Rightarrow> int list" where
  "item_signals env i [] = []"
| "item_signals env i (item # rest) = item_signal env i item # item_signals env (Suc i) rest"

text \<open>No call of the agent on the batch raises an exception outside \<open>Exception\<close>.\<close>

fun agent_caught :: "worker_env \<Rightarrow> nat \<Rightarrow> item list \<Rightarrow> bool" where
  "agent_caught env i [] = True"
| "agent_caught env i (item # rest) =
     ((case agent env i item of Raises e \<Rightarrow> is_Exception e | Returns results \<Rightarrow> True)
      \<and> agent_caught env (Suc i) rest)"


text \<open>Example agents: the second item fails; every call is interrupted.\<close>

fun second_fails :: "nat \<Rightarrow> item \<Rightarrow> agent_result" where
  "second_fails i item =
     (if i = 1 then Raises AgentError else Returns [item, item])"

fun always_interrupted :: "nat \<Rightarrow> item \<Rightarrow> agent_result" where
  "always_interrupted i item = Raises KeyboardInterrupt"

definition example_env :: "init_result \<Rightarrow> (nat \<Rightarrow> item \<Rightarrow> agent_result) \<Rightarrow> worker_env" where
  "example_env st ag =
     \<lparr>progress_tracking_key = ''k'', start = st, agent = ag, driver_quit = QuitReturns\<rparr>"


definition abc_items :: "item list" where
  "abc_items = [[(''k'', ''a'')], [(''k'', ''b'')], [(''k'', ''c'')]]"

section \<open>\<open>ProgressTracker\<close>\<close>

text \<open>
  The estimate shown in a summary line: a number of whole seconds, or one of the three
  fixed texts.
\<close>

datatype eta = EtaSeconds int | Completing | Completed | Calculating

text \<open>
  One summary line of \<open>_log_progress\<close>: processed and total input items, the percentage,
  the output item count, the failed count and the estimate.
\<close>

record summary =
  shown_processed :: int
  shown_total :: int
  shown_pct :: real
  shown_output :: int
  shown_failed :: int
  shown_eta :: eta

text \<open>
  The tracker's fields; \<open>logged\<close> collects what it passes to \<open>self.logger.info\<close>. Clock
  readings of \<open>time.time()\<close> are parameters, and Python's floats are taken as reals.
\<close>

record progress_tracker =
  total_input_items :: int
  processed_input_items :: int
  total_output_items :: int
  failed_items :: int
  start_time :: real
  last_update :: real
  logged :: "summary list"


definition eta_str :: "real \<Rightarrow> progress_tracker \<Rightarrow> eta" where
  "eta_str elapsed_time t =
     (if processed_input_items t > 0 \<and> processed_input_items t < total_input_items t
      then (let avg_time_per_item = elapsed_time / real_of_int (processed_input_items t);
                remaining_items = total_input_items t - processed_input_items t;
                eta_seconds = real_of_int remaining_items * avg_time_per_item
            in if eta_seconds < 0 then Completing else EtaSeconds \<lfloor>eta_seconds\<rfloor>)
      else if processed_input_items t \<ge> total_input_items t then Completed
      else Calculating)"

definition make_summary :: "real \<Rightarrow> progress_tracker \<Rightarrow> summary" where
  "make_summary now t =
     \<lparr>shown_processed = processed_input_items t,
      shown_total = total_input_items t,
      shown_pct = real_of_int (processed_input_items t) / real_of_int (total_input_items t) * 100,
      shown_output = total_output_items t,
      shown_failed = failed_items t,
      shown_eta = eta_str (now - start_time t) t\<rparr>"

text \<open>
  \<open>_log_progress\<close>: nothing when no input item was processed; the division by
  \<open>total_input_items\<close> raises when that is zero; otherwise one summary line is logged.
\<close>

definition log_progress :: "real \<Rightarrow> progress_tracker \<Rightarrow> py_exception option \<times> progress_tracker" where
  "log_progress now t =
     (if processed_input_items t = 0 then (None, t)
      else if total_input_items t = 0 then (Some ZeroDivisionError, t)
      else (None, t\<lparr>logged := logged t @ [make_summary now t]\<rparr>))"


section \<open>Supervisor: the monitor loop of \<open>run_multiprocess_scraper\<close>\<close>



text \<open>The clause \<open>except Exception as e\<close>: the exception is logged and does not go on.\<close>

definition except_Exception :: "py_exception option \<Rightarrow> py_exception option" where
  "except_Exception r = (case r of None \<Rightarrow> None | Some e \<Rightarrow> if is_Exception e then None else Some e)"










section \<open>OutputSink: \<open>OutputManager\<close>\<close>

text \<open>
  The output file as the lines that \<open>to_csv\<close> has written to it: a header line with the
  column names, or a data row with the values.
\<close>

datatype csv_line = Header "string list" | Row "string list"

text \<open>
  The files an \<open>OutputManager\<close> touches: the output file (\<open>None\<close> when it does not exist)
  and the backup files, by the \<open>int(time.time())\<close> in their names.
\<close>

record file_system =
  output_file_lines :: "csv_line list option"
  backup_file_lines :: "int \<Rightarrow> csv_line list option"

record output_manager =
  headers_written :: bool

text \<open>\<open>__init__\<close>: \<open>_ensure_file_exists\<close> touches a missing file; no header is written yet.\<close>

definition OutputManager_init :: "file_system \<Rightarrow> output_manager \<times> file_system" where
  "OutputManager_init fs =
     (\<lparr>headers_written = False\<rparr>,
      (case output_file_lines fs of
         None \<Rightarrow> fs\<lparr>output_file_lines := Some []\<rparr>
       | Some content \<Rightarrow> fs))"

text \<open>
  \<open>pd.DataFrame([result]).to_csv(f, index=False, header=write_header)\<close>: the header line
  of the record's field names when asked for, then the row of its values.
\<close>

definition to_csv :: "item \<Rightarrow> bool \<Rightarrow> csv_line list" where
  "to_csv result header = (if header then [Header (map fst result)] else []) @ [Row (map snd result)]"

text \<open>
  What the operating system does to the calls of one \<open>append_single_result\<close>: the
  appending part may raise at \<open>stat\<close>, at \<open>open\<close> or in \<open>to_csv\<close> (before anything is
  written, or after the header line and before the row), and the backup write may raise.
  These are \<open>OSError\<close>s.
\<close>

datatype append_io =
  AppendOk | StatRaises | OpenRaises | ToCsvRaises | ToCsvRaisesAfterHeader

datatype backup_io = BackupOk | BackupRaises

text \<open>
  \<open>append_single_result\<close>: \<open>body\<close> is the outer \<open>try\<close> block; \<open>stat\<close> of a missing file
  raises, and \<open>st_size == 0\<close> holds when the file has no line. The clause \<open>except Exception\<close>
  writes the record with a header to the backup file named after \<open>now\<close>, inside a \<open>try\<close>
  of its own whose \<open>except Exception\<close> only logs. The backup path comes from
  \<open>output_file.with_suffix\<close>, which returns for every path that has a file name, as the
  paths of \<open>_get_output_file_path\<close> have. The first component of the result is the
  exception that leaves the call, if any.
\<close>

definition append_single_result ::
    "item \<Rightarrow> append_io \<Rightarrow> backup_io \<Rightarrow> int \<Rightarrow> output_manager \<times> file_system
      \<Rightarrow> py_exception option \<times> output_manager \<times> file_system" where
  "append_single_result result io bio now st =
     (let (om, fs) = st;
          body =
            (case output_file_lines fs of
               None \<Rightarrow> (Some OSError, om, fs)
             | Some content \<Rightarrow>
                 if io = StatRaises then (Some OSError, om, fs)
                 else (let file_is_empty = (content = []) in
                       if io = OpenRaises then (Some OSError, om, fs)
                       else (let write_header = (file_is_empty \<or> \<not> headers_written om) in
                             if io = ToCsvRaises then (Some OSError, om, fs)
                             else if io = ToCsvRaisesAfterHeader
                             then (Some OSError, om,
                                   fs\<lparr>output_file_lines :=
                                        Some (content @ (if write_header
                                                         then [Header (map fst result)] else []))\<rparr>)
                             else (None, om\<lparr>headers_written := True\<rparr>,
                                   fs\<lparr>output_file_lines := Some (content @ to_csv result write_header)\<rparr>))))
      in case body of
           (None, om', fs') \<Rightarrow> (None, om', fs')
         | (Some e, om', fs') \<Rightarrow>
             if is_Exception e
             then (let backup =
                         (if bio = BackupRaises then (Some OSError, om', fs')
                          else (None, om',
                                fs'\<lparr>backup_file_lines := (backup_file_lines fs')(now \<mapsto> to_csv result True)\<rparr>))
                   in (except_Exception (fst backup), snd backup))
             else (Some e, om', fs'))"

text \<open>The number of header lines in a file.\<close>

fun is_header :: "csv_line \<Rightarrow> bool" where
  "is_header (Header cols) = True"
| "is_header (Row vals) = False"

definition header_count :: "csv_line list option \<Rightarrow> nat" where
  "header_count file = (case file of None \<Rightarrow> 0 | Some content \<Rightarrow> length (filter is_header content))"

text \<open>
  The output file that an earlier run left: a header and one row. A resumed run creates
  a new \<open>OutputManager\<close> on it and appends one record.
\<close>

definition earlier_run_files :: file_system where
  "earlier_run_files =
     \<lparr>output_file_lines = Some [Header [''k''], Row [''a'']], backup_file_lines = Map.empty\<rparr>"

definition resumed_append :: "py_exception option \<times> output_manager \<times> file_system" where
  "resumed_append =
     append_single_result [(''k'', ''b'')] AppendOk BackupOk 0 (OutputManager_init earlier_run_files)"

section \<open>Properties of the partitioner\<close>

lemma slice_batches_step:
  assumes "i < length items" and "0 < batch_size"
  shows "slice_batches items batch_size i batches =
         slice_batches items batch_size (i + batch_size)
           (batches @ [take batch_size (drop i items)])"
proof -
  have "take batch_size (drop i items) \<noteq> []"
    using assms by simp
  then show ?thesis
    using assms by (subst slice_batches.simps) (simp add: Let_def)
qed

lemma slice_batches_stop:
  assumes "\<not> (i < length items \<and> 0 < batch_size)"
  shows "slice_batches items batch_size i batches = batches"
  using assms by (subst slice_batches.simps) (simp only: if_False)

lemma slice_batches_concat:
  "0 < batch_size \<Longrightarrow>
   concat (slice_batches items batch_size i batches) = concat batches @ drop i items"
proof (induction items batch_size i batches rule: slice_batches.induct)
  case (1 items batch_size i batches)
  show ?case
  proof (cases "i < length items")
    case True
    let ?batch = "take batch_size (drop i items)"
    have ne: "?batch \<noteq> []"
      using True "1.prems" by simp
    have "concat (slice_batches items batch_size (i + batch_size) (batches @ [?batch])) =
              concat (batches @ [?batch]) @ drop (i + batch_size) items"
      using "1.IH" [of ?batch] True "1.prems" ne by simp
    moreover have "?batch @ drop (i + batch_size) items = drop i items"
      by (metis add.commute append_take_drop_id drop_drop)
    ultimately show ?thesis
      using slice_batches_step [OF True "1.prems"] by simp
  next
    case False
    then show ?thesis
      by (simp add: slice_batches_stop)
  qed
qed

lemma slice_batches_nonempty:
  "\<forall>b \<in> set batches. b \<noteq> [] \<Longrightarrow>
   \<forall>b \<in> set (slice_batches items batch_size i batches). b \<noteq> []"
proof (induction items batch_size i batches rule: slice_batches.induct)
  case (1 items batch_size i batches)
  show ?case
  proof (cases "i < length items \<and> 0 < batch_size")
    case True
    let ?batch = "take batch_size (drop i items)"
    have ne: "?batch \<noteq> []"
      using True by simp
    have "\<forall>b \<in> set (batches @ [?batch]). b \<noteq> []"
      using "1.prems" ne by simp
    then have "\<forall>b \<in> set (slice_batches items batch_size (i + batch_size) (batches @ [?batch])). b \<noteq> []"
      by (rule "1.IH" [OF True refl, unfolded if_P [OF ne]])
    then show ?thesis
      using True by (simp only: slice_batches_step)
  next
    case False
    show ?thesis
      using "1.prems" by (simp only: slice_batches_stop [OF False])
  qed
qed

lemma concat_extend_last:
  assumes "xs \<noteq> []"
  shows "concat (xs[length xs - 1 := xs ! (length xs - 1) @ y]) = concat xs @ y"
proof -
  obtain ys z where xs: "xs = ys @ [z]"
    using assms by (metis append_butlast_last_id)
  show ?thesis
    by (simp add: xs nth_append)
qed

lemma set_extend_last:
  assumes "xs \<noteq> []" and "\<forall>b \<in> set xs. b \<noteq> []"
  shows "\<forall>b \<in> set (xs[length xs - 1 := xs ! (length xs - 1) @ y]). b \<noteq> []"
proof -
  obtain ys z where xs: "xs = ys @ [z]"
    using assms(1) by (metis append_butlast_last_id)
  have "z \<noteq> []" and "\<forall>b \<in> set ys. b \<noteq> []"
    using assms(2) by (simp_all add: xs)
  then show ?thesis
    by (simp add: xs nth_append)
qed

lemma merge_last_batches_step:
  assumes "int (length batches) > num_processes \<and> length batches > 1"
  shows "merge_last_batches batches num_processes =
         merge_last_batches
           ((butlast batches)[length (butlast batches) - 1 :=
              butlast batches ! (length (butlast batches) - 1) @ last batches])
           num_processes"
  by (subst merge_last_batches.simps) (simp only: assms if_True Let_def simp_thms)

lemma merge_last_batches_stop:
  assumes "\<not> (int (length batches) > num_processes \<and> length batches > 1)"
  shows "merge_last_batches batches num_processes = batches"
  using assms by (subst merge_last_batches.simps) (simp only: if_False)

lemma merge_last_batches_concat:
  "concat (merge_last_batches batches num_processes) = concat batches"
proof (induction batches num_processes rule: merge_last_batches.induct)
  case (1 batches num_processes)
  show ?case
  proof (cases "int (length batches) > num_processes \<and> length batches > 1")
    case True
    let ?popped = "butlast batches"
    let ?merged = "?popped[length ?popped - 1 := ?popped ! (length ?popped - 1) @ last batches]"
    have ne: "?popped \<noteq> []"
      using True by (cases batches) auto
    have "concat (merge_last_batches batches num_processes) =
          concat (merge_last_batches ?merged num_processes)"
      by (simp only: merge_last_batches_step [OF True])
    also have "\<dots> = concat ?merged"
      by (rule "1.IH" [OF True refl refl refl])
    also have "\<dots> = concat ?popped @ last batches"
      using ne by (rule concat_extend_last)
    also have "\<dots> = concat (?popped @ [last batches])"
      by simp
    also have "\<dots> = concat batches"
      using True by (cases "batches = []") simp_all
    finally show ?thesis .
  next
    case False
    show ?thesis
      by (simp only: merge_last_batches_stop [OF False])
  qed
qed

lemma merge_last_batches_nonempty:
  "\<forall>b \<in> set batches. b \<noteq> [] \<Longrightarrow>
   \<forall>b \<in> set (merge_last_batches batches num_processes). b \<noteq> []"
proof (induction batches num_processes rule: merge_last_batches.induct)
  case (1 batches num_processes)
  show ?case
  proof (cases "int (length batches) > num_processes \<and> length batches > 1")
    case True
    let ?popped = "butlast batches"
    let ?merged = "?popped[length ?popped - 1 := ?popped ! (length ?popped - 1) @ last batches]"
    have ne: "?popped \<noteq> []"
      using True by (cases batches) auto
    have "\<forall>b \<in> set ?popped. b \<noteq> []"
      using "1.prems" by (meson in_set_butlastD)
    with ne have "\<forall>b \<in> set ?merged. b \<noteq> []"
      by (rule set_extend_last)
    then have "\<forall>b \<in> set (merge_last_batches ?merged num_processes). b \<noteq> []"
      by (rule "1.IH" [OF True refl refl refl])
    then show ?thesis
      by (simp only: merge_last_batches_step [OF True])
  next
    case False
    show ?thesis
      using "1.prems" by (simp only: merge_last_batches_stop [OF False])
  qed
qed

lemma merge_last_batches_length:
  "1 \<le> num_processes \<Longrightarrow> int (length (merge_last_batches batches num_processes)) \<le> num_processes"
proof (induction batches num_processes rule: merge_last_batches.induct)
  case (1 batches num_processes)
  show ?case
  proof (cases "int (length batches) > num_processes \<and> length batches > 1")
    case True
    have "int (length (merge_last_batches
            ((butlast batches)[length (butlast batches) - 1 :=
               butlast batches ! (length (butlast batches) - 1) @ last batches])
            num_processes)) \<le> num_processes"
      using "1.prems" by (rule "1.IH" [OF True refl refl refl])
    then show ?thesis
      by (simp only: merge_last_batches_step [OF True])
  next
    case False
    have "int (length batches) \<le> num_processes"
      using False "1.prems" by linarith
    then show ?thesis
      by (simp only: merge_last_batches_stop [OF False])
  qed
qed

text \<open>
  Claim C1. For every list of work items \<open>I\<close> and every \<open>n \<ge> 1\<close>,
  \<open>split_items_into_batches I n\<close> returns (it does not raise) a list of batches whose
  concatenation in order is \<open>I\<close>, with at most \<open>n\<close> batches, none of them empty; an empty
  \<open>I\<close> yields no batches.
\<close>

theorem split_items_into_batches_partition:
  assumes "1 \<le> n"
  shows "\<exists>batches. split_items_into_batches I n = Inr batches
           \<and> concat batches = I
           \<and> int (length batches) \<le> n
           \<and> (\<forall>b \<in> set batches. b \<noteq> [])
           \<and> (I = [] \<longrightarrow> batches = [])"
proof (cases "I = []")
  case True
  then show ?thesis
    using assms by (simp add: split_items_into_batches_def)
next
  case False
  define batch_size where "batch_size = nat (max 1 (int (length I) div n))"
  define sliced where "sliced = slice_batches I batch_size 0 []"
  have pos: "0 < batch_size"
    by (simp add: batch_size_def)
  have n0: "n \<noteq> 0"
    using assms by simp
  have res: "split_items_into_batches I n = Inr (merge_last_batches sliced n)"
    by (simp add: split_items_into_batches_def batch_size_def sliced_def False n0)
  have c: "concat (merge_last_batches sliced n) = I"
    using slice_batches_concat [OF pos, of I 0 "[]"]
    by (simp add: merge_last_batches_concat sliced_def)
  have "\<forall>b \<in> set sliced. b \<noteq> []"
    unfolding sliced_def by (rule slice_batches_nonempty) simp
  then have ne: "\<forall>b \<in> set (merge_last_batches sliced n). b \<noteq> []"
    by (rule merge_last_batches_nonempty)
  have len: "int (length (merge_last_batches sliced n)) \<le> n"
    using assms by (rule merge_last_batches_length)
  from res c len ne False show ?thesis
    by blast
qed

theorem split_items_into_batches_partition_witness:
  "(1::int) \<le> 2 \<and>
   (\<exists>batches. split_items_into_batches [1::nat, 2, 3] 2 = Inr batches
      \<and> concat batches = [1, 2, 3]
      \<and> int (length batches) \<le> 2
      \<and> (\<forall>b \<in> set batches. b \<noteq> [])
      \<and> ([1::nat, 2, 3] = [] \<longrightarrow> batches = []))"
  using split_items_into_batches_partition [of 2 "[1::nat, 2, 3]"] by simp

text \<open>
  Claim C8, as stated: for the input \<open>[{"k":"a"},{"k":"b"},{"k":"c"}]\<close> and \<open>n = 2\<close> the
  result is \<open>[[a,b],[c]]\<close>. The code computes \<open>batch_size = max(1, 3 // 2) = 1\<close>, slices
  three batches of one item and merges the last one into the second, so the statement
  as written fails.
\<close>

theorem split_three_items_two_processes_counterexample:
  "split_items_into_batches [[(''k'', ''a'')], [(''k'', ''b'')], [(''k'', ''c'')]] 2
     \<noteq> Inr [[[(''k'', ''a'')], [(''k'', ''b'')]], [[(''k'', ''c'')]]]"
  by code_simp

text \<open>
  Claim C8, amended: for the input \<open>[{"k":"a"},{"k":"b"},{"k":"c"}]\<close> and \<open>n = 2\<close>,
  \<open>split_items_into_batches\<close> returns exactly the two batches \<open>[[a],[b,c]]\<close>, in that order.
\<close>

theorem split_three_items_two_processes:
  "split_items_into_batches [[(''k'', ''a'')], [(''k'', ''b'')], [(''k'', ''c'')]] 2
     = Inr [[[(''k'', ''a'')]], [[(''k'', ''b'')], [(''k'', ''c'')]]]"
  by code_simp

section \<open>Properties of the resume filter\<close>

lemma filter_loop_filter:
  "filter_loop resume_key K items acc =
   acc @ filter (\<lambda>item. item_key_str item resume_key \<noteq> [] \<and> item_key_str item resume_key \<notin> K) items"
  by (induction items arbitrary: acc) (simp_all add: Let_def)

text \<open>
  Claim C2, as stated: with keys \<open>K\<close> in the persisted output, the filter returns exactly
  the items whose resume-key value is not in \<open>K\<close>. The item that \<open>run_n1n3_scraper\<close> builds
  has no \<open>N3_url\<close> field, so its resume-key value is not in \<open>K = {u1}\<close>, and yet the filter
  drops it.
\<close>

theorem filter_items_for_resume_counterexample:
  "filter_items_for_resume ''N3_url'' earlier_output n1n3_items
     \<noteq> resume_set_difference ''N3_url'' (load_existing_results ''N3_url'' earlier_output) n1n3_items"
  by (simp add: filter_items_for_resume_def resume_set_difference_def load_existing_results_def
      earlier_output_def n1n3_items_def df_empty_def column_dropna_def dict_get_def
      item_key_str_def)

text \<open>
  Claim C2, amended. Let \<open>K\<close> be the set of resume-key values that
  \<open>_load_existing_results\<close> reads from the persisted output. When \<open>K\<close> is not empty,
  \<open>_filter_items_for_resume\<close> returns, in order, exactly the items whose resume-key value
  is a non-empty string that is not in \<open>K\<close>; when \<open>K\<close> is empty it returns the list
  unchanged, and \<open>K\<close> is empty when the output file does not exist, cannot be parsed or has
  no rows.
\<close>

theorem filter_items_for_resume_amended:
  "filter_items_for_resume resume_key output_file I =
     (if load_existing_results resume_key output_file = {} then I
      else filter (\<lambda>item. item_key_str item resume_key \<noteq> []
                         \<and> item_key_str item resume_key \<notin> load_existing_results resume_key output_file) I)
   \<and> load_existing_results resume_key Missing = {}
   \<and> load_existing_results resume_key Unreadable = {}
   \<and> load_existing_results resume_key (Parsed \<lparr>columns = cs, rows = []\<rparr>) = {}"
  by (simp add: filter_items_for_resume_def filter_loop_filter load_existing_results_def
      df_empty_def Let_def)

theorem filter_items_for_resume_amended_witness:
  "filter_items_for_resume ''k'' (Parsed \<lparr>columns = [''k''], rows = [[(''k'', ''a'')]]\<rparr>)
      [[(''k'', ''a'')], [(''k'', ''b'')], [(''x'', ''c'')]] = [[(''k'', ''b'')]]
   \<and> filter_items_for_resume ''k'' Missing [[(''k'', ''a'')], [(''k'', ''b'')]]
      = [[(''k'', ''a'')], [(''k'', ''b'')]]"
proof -
  have K: "load_existing_results ''k'' (Parsed \<lparr>columns = [''k''], rows = [[(''k'', ''a'')]]\<rparr>) = {''a''}"
    by (simp add: load_existing_results_def df_empty_def column_dropna_def dict_get_def)
  show ?thesis
    using filter_items_for_resume_amended
            [of "''k''" "Parsed \<lparr>columns = [''k''], rows = [[(''k'', ''a'')]]\<rparr>"
                "[[(''k'', ''a'')], [(''k'', ''b'')], [(''x'', ''c'')]]" "[]"]
          filter_items_for_resume_amended
            [of "''k''" Missing "[[(''k'', ''a'')], [(''k'', ''b'')]]" "[]"]
    by (simp add: K item_key_str_def dict_get_def)
qed

section \<open>Properties of the worker\<close>

lemma progress_queue_put_progress:
  "progress_queue (put_progress sig s) = progress_queue s @ [sig]"
  by (simp add: put_progress_def)

lemma progress_queue_put_outputs:
  "progress_queue (foldl put_output s results) = progress_queue s"
  by (induction results arbitrary: s) (simp_all add: put_output_def)


lemma signal_failure_for_each_eq:
  "signal_failure_for_each items_batch s =
   s\<lparr>progress_queue := progress_queue s @ replicate (length items_batch) (Count (- 1))\<rparr>"
proof -
  have "foldl (\<lambda>s' _. put_progress (Count (- 1)) s') s xs =
        s\<lparr>progress_queue := progress_queue s @ replicate (length xs) (Count (- 1))\<rparr>"
    for xs :: "item list"
  proof (induction xs arbitrary: s)
    case Nil
    show ?case by simp
  next
    case (Cons x xs)
    show ?case
      by (simp add: Cons.IH) (simp add: put_progress_def)
  qed
  then show ?thesis
    by (simp add: signal_failure_for_each_def)
qed




lemma driver_open_process_item:
  "driver_open (snd (process_item env i item s)) = driver_open s"
proof -
  have "driver_open (foldl put_output s' results) = driver_open s'" for s' results
    by (induction results arbitrary: s') (simp_all add: put_output_def)
  then show ?thesis
    by (simp add: process_item_def Let_def put_progress_def split: agent_result.split)
qed

lemma driver_open_process_items:
  "driver_open (snd (process_items env i items_batch s)) = driver_open s"
proof (induction items_batch arbitrary: i s)
  case Nil
  show ?case by simp
next
  case (Cons item rest)
  obtain r s' where step: "process_item env i item s = (r, s')"
    by (cases "process_item env i item s")
  have "driver_open s' = driver_open s"
    using driver_open_process_item [of env i item s] step by simp
  then show ?case
    using step Cons.IH [of "Suc i" s'] by (cases r) simp_all
qed





lemma process_item_caught:
  assumes "case agent env i item of Raises e \<Rightarrow> is_Exception e | Returns results \<Rightarrow> True"
  shows "fst (process_item env i item s) = None
         \<and> progress_queue (snd (process_item env i item s)) =
             progress_queue s @ [Count (item_signal env i item)]"
  using assms
  by (cases "agent env i item")
     (simp_all add: process_item_def item_signal_def Let_def progress_queue_put_progress
        progress_queue_put_outputs)

lemma process_items_caught:
  assumes "agent_caught env i items_batch"
  shows "fst (process_items env i items_batch s) = None
         \<and> progress_queue (snd (process_items env i items_batch s)) =
             progress_queue s @ map Count (item_signals env i items_batch)"
  using assms
proof (induction items_batch arbitrary: i s)
  case Nil
  show ?case by simp
next
  case (Cons item rest)
  obtain r s' where step: "process_item env i item s = (r, s')"
    by (cases "process_item env i item s")
  have c: "case agent env i item of Raises e \<Rightarrow> is_Exception e | Returns results \<Rightarrow> True"
    and rest: "agent_caught env (Suc i) rest"
    using Cons.prems by simp_all
  have r: "r = None" and q: "progress_queue s' = progress_queue s @ [Count (item_signal env i item)]"
    using process_item_caught [OF c, of s] step by simp_all
  show ?case
    using Cons.IH [OF rest, of s'] step r q by simp
qed

lemma length_item_signals: "length (item_signals env i items_batch) = length items_batch"
  by (induction items_batch arbitrary: i) simp_all

lemma nth_item_signals:
  "j < length items_batch \<Longrightarrow>
   item_signals env i items_batch ! j = item_signal env (i + j) (items_batch ! j)"
proof (induction items_batch arbitrary: i j)
  case Nil
  then show ?case by simp
next
  case (Cons item rest)
  show ?case
  proof (cases j)
    case 0
    then show ?thesis by simp
  next
    case (Suc j')
    then show ?thesis
      using Cons.IH [of j' "Suc i"] Cons.prems by simp
  qed
qed

lemma item_signal_failed_iff:
  "item_signal env i item = - 1 \<longleftrightarrow>
   truthy (dict_get item (progress_tracking_key env)) \<and> (\<exists>e. agent env i item = Raises e)"
  by (simp add: item_signal_def split: agent_result.split)

text \<open>
  Claim C4. In a batch whose driver was initialised and whose agent calls raise nothing
  outside \<open>Exception\<close>, every item yields exactly one progress signal, in batch order; the
  signal of an item is \<open>-1\<close> exactly when the agent call on it raised. So an item that
  raises puts one \<open>-1\<close> and the loop goes on with the next item. \<open>'DONE'\<close> follows the last
  item's signal and \<open>process_batch\<close> returns, unless the driver clean-up is left by an
  exception outside \<open>Exception\<close>.
\<close>

theorem process_batch_failed_item_continues:
  assumes "start env = InitReturns True" and "agent_caught env 0 items_batch"
  shows "(fst (process_batch env items_batch s) = None \<longleftrightarrow> \<not> quit_escapes env)
         \<and> progress_queue (snd (process_batch env items_batch s)) =
             progress_queue s @ map Count (item_signals env 0 items_batch)
               @ (if quit_escapes env then [] else [DONE])
         \<and> length (item_signals env 0 items_batch) = length items_batch
         \<and> (\<forall>j < length items_batch.
              item_signals env 0 items_batch ! j = - 1 \<longleftrightarrow>
              truthy (dict_get (items_batch ! j) (progress_tracking_key env))
              \<and> (\<exists>e. agent env j (items_batch ! j) = Raises e))"
proof -
  obtain r s' where loop: "process_items env 0 items_batch (s\<lparr>driver_open := True\<rparr>) = (r, s')"
    by (cases "process_items env 0 items_batch (s\<lparr>driver_open := True\<rparr>)")
  have r: "r = None"
    and q: "progress_queue s' = progress_queue s @ map Count (item_signals env 0 items_batch)"
    using process_items_caught [OF assms(2), of "s\<lparr>driver_open := True\<rparr>"] loop by simp_all
  have d: "driver_open s'"
    using driver_open_process_items [of env 0 items_batch "s\<lparr>driver_open := True\<rparr>"] loop
    by simp
  have pb: "process_batch env items_batch s =
            (case close_driver env s' of
               (None, s'') \<Rightarrow> (None, put_progress DONE s'')
             | (Some e, s'') \<Rightarrow> (Some e, s''))"
    using assms(1) loop r by (simp add: process_batch_def split: prod.split option.split)
  have "(fst (process_batch env items_batch s) = None \<longleftrightarrow> \<not> quit_escapes env)
        \<and> progress_queue (snd (process_batch env items_batch s)) =
            progress_queue s @ map Count (item_signals env 0 items_batch)
              @ (if quit_escapes env then [] else [DONE])"
  proof (cases "driver_quit env")
    case QuitReturns
    then show ?thesis
      using d q by (simp add: pb close_driver_def quit_escapes_def put_progress_def)
  next
    case (QuitRaises e)
    then show ?thesis
      using d q
      by (cases "is_Exception e")
         (simp_all add: pb close_driver_def quit_escapes_def put_progress_def)
  qed
  moreover have "\<forall>j < length items_batch.
              item_signals env 0 items_batch ! j = - 1 \<longleftrightarrow>
              truthy (dict_get (items_batch ! j) (progress_tracking_key env))
              \<and> (\<exists>e. agent env j (items_batch ! j) = Raises e)"
    by (simp add: nth_item_signals item_signal_failed_iff)
  ultimately show ?thesis
    by (simp add: length_item_signals)
qed

theorem process_batch_failed_item_continues_witness:
  "start (example_env (InitReturns True) second_fails) = InitReturns True
   \<and> agent_caught (example_env (InitReturns True) second_fails) 0 abc_items
   \<and> fst (process_batch (example_env (InitReturns True) second_fails) abc_items new_worker) = None
   \<and> progress_queue (snd (process_batch (example_env (InitReturns True) second_fails) abc_items new_worker))
       = [Count 2, Count (- 1), Count 2, DONE]"
proof -
  have h1: "start (example_env (InitReturns True) second_fails) = InitReturns True"
    by (simp add: example_env_def)
  have h2: "agent_caught (example_env (InitReturns True) second_fails) 0 abc_items"
    by (simp add: example_env_def abc_items_def)
  have sigs: "item_signals (example_env (InitReturns True) second_fails) 0 abc_items = [2, - 1, 2]"
    by (simp add: example_env_def abc_items_def item_signal_def truthy_def dict_get_def)
  have nq: "\<not> quit_escapes (example_env (InitReturns True) second_fails)"
    by (simp add: quit_escapes_def example_env_def)
  show ?thesis
    using process_batch_failed_item_continues [OF h1 h2, of new_worker] h1 h2 nq
    by (simp add: sigs new_worker_def)
qed

text \<open>
  Claim C6. If driver initialisation fails at worker start (\<open>_init_driver\<close> returns
  \<open>False\<close>), \<open>process_batch\<close> puts one \<open>-1\<close> per item of its batch and then \<open>'DONE'\<close>, puts
  nothing on the output queue, never calls the agent, and returns.
\<close>

theorem process_batch_driver_init_fails:
  assumes "start env = InitReturns False"
  shows "process_batch env items_batch s =
           (None, s\<lparr>driver_open := False,
                     progress_queue := progress_queue s
                        @ replicate (length items_batch) (Count (- 1)) @ [DONE]\<rparr>)"
  using assms
  by (simp add: process_batch_def signal_failure_for_each_eq put_progress_def close_driver_def)

theorem process_batch_driver_init_fails_witness:
  "start (example_env (InitReturns False) always_interrupted) = InitReturns False
   \<and> process_batch (example_env (InitReturns False) always_interrupted) abc_items new_worker =
       (None, \<lparr>driver_open = False,
                progress_queue = [Count (- 1), Count (- 1), Count (- 1), DONE],
                output_queue = []\<rparr>)"
proof -
  have h: "start (example_env (InitReturns False) always_interrupted) = InitReturns False"
    by (simp add: example_env_def)
  show ?thesis
    using process_batch_driver_init_fails [OF h, of abc_items new_worker] h
    by (simp add: new_worker_def abc_items_def)
qed

section \<open>Properties of the tracker and of the monitor loop\<close>

lemma log_progress_counters:
  "processed_input_items (snd (log_progress now t)) = processed_input_items t
   \<and> total_input_items (snd (log_progress now t)) = total_input_items t"
  by (simp add: log_progress_def)

lemma log_progress_no_exception:
  "total_input_items t \<noteq> 0 \<Longrightarrow> fst (log_progress now t) = None"
  by (simp add: log_progress_def)
















section \<open>Properties of the final summary\<close>




section \<open>Properties of the output sink\<close>

text \<open>
  Claim C10. \<open>append_single_result\<close> never raises to its caller: for every record and
  every outcome of the writes (the append succeeds; the append fails at \<open>stat\<close>, \<open>open\<close> or
  in \<open>to_csv\<close>, with or without a header line written, and the backup write succeeds;
  both fail; the output file is missing), the call returns normally.
\<close>

theorem append_single_result_never_raises:
  "fst (append_single_result result io bio now (om, fs)) = None"
proof (cases "output_file_lines fs")
  case None
  then show ?thesis
    by (cases bio) (simp_all add: append_single_result_def except_Exception_def)
next
  case (Some content)
  then show ?thesis
    by (cases io; cases bio) (simp_all add: append_single_result_def except_Exception_def Let_def)
qed

text \<open>
  Claim C7 fails on a resumed run. The output file of the earlier run holds a header and
  a row; the new \<open>OutputManager\<close> starts with \<open>headers_written = False\<close>, so its first append
  computes \<open>write_header = file_is_empty or not self.headers_written = True\<close> and writes a
  second header line into the file.
\<close>

theorem resumed_append_writes_second_header:
  "output_file_lines (snd (snd resumed_append))
     = Some [Header [''k''], Row [''a''], Header [''k''], Row [''b'']]
   \<and> header_count (output_file_lines (snd (snd resumed_append))) = 2"
  by (simp add: resumed_append_def append_single_result_def OutputManager_init_def
      earlier_run_files_def to_csv_def header_count_def)
end
